theory Spec2Isabelle
  imports Complex_Main "HOL-Library.Multiset"
begin

section \<open>Ad auctions with Thompson sampling: the notebook as HOL functions\<close>

text \<open>
  The development embeds the code cells of
  \<^verbatim>\<open>Online_ad_auctions_using_Thompson_sampling.ipynb\<close>.

  \<^item> Python floats (bids, click-through rates, samples, rewards, regrets) are modelled as
    \<^typ>\<open>real\<close>: rounding, infinities and NaN are not part of the model. Python ints
    (views, clicks, the Beta parameters, the horizon and the replication count) are
    \<^typ>\<open>int\<close>.
  \<^item> The global dictionaries are maps; a read of a missing key is the error
    \<open>KeyError\<close>, a list read out of range is \<open>IndexError\<close>.
  \<^item> The process-wide generator of \<^verbatim>\<open>np.random\<close> is an explicit generator state of
    an arbitrary type \<open>'g\<close>, threaded through every draw. The two draws are parameters
    of the model (a \<open>sampler\<close>), so every theorem holds for whatever values the generator
    returns.
\<close>

subsection \<open>Errors and dictionaries\<close>

datatype error = KeyError | ValueError | IndexError

fun bind_r :: "error + 'a \<Rightarrow> ('a \<Rightarrow> error + 'b) \<Rightarrow> error + 'b" where
  "bind_r (Inl e) f = Inl e"
| "bind_r (Inr v) f = f v"

definition getitem :: "('k \<rightharpoonup> 'v) \<Rightarrow> 'k \<Rightarrow> error + 'v" where
  \<comment> \<open>\<^verbatim>\<open>d[k]\<close>\<close>
  "getitem d k = (case d k of None \<Rightarrow> Inl KeyError | Some v \<Rightarrow> Inr v)"

definition list_index :: "'a list \<Rightarrow> nat \<Rightarrow> error + 'a" where
  \<comment> \<open>\<^verbatim>\<open>xs[i]\<close> for an index that comes from \<^verbatim>\<open>range\<close>, hence is not negative\<close>
  "list_index xs i = (if i < length xs then Inr (xs ! i) else Inl IndexError)"

fun dict_comp :: "('k \<Rightarrow> error + 'v) \<Rightarrow> 'k list \<Rightarrow> ('k \<rightharpoonup> 'v) \<Rightarrow> error + ('k \<rightharpoonup> 'v)" where
  \<comment> \<open>\<^verbatim>\<open>{k: f(k) for k in ks}\<close>, the dictionary built so far as accumulator\<close>
  "dict_comp f [] d = Inr d"
| "dict_comp f (k # ks) d = bind_r (f k) (\<lambda>v. dict_comp f ks (d(k \<mapsto> v)))"

fun list_comp :: "('a \<Rightarrow> error + 'b) \<Rightarrow> 'a list \<Rightarrow> error + 'b list" where
  \<comment> \<open>\<^verbatim>\<open>[f(x) for x in xs]\<close>\<close>
  "list_comp f [] = Inr []"
| "list_comp f (x # xs) = bind_r (f x) (\<lambda>y. bind_r (list_comp f xs) (\<lambda>ys. Inr (y # ys)))"

subsection \<open>Auction data\<close>

record env =
  ads :: "string list"
  bid :: "string \<rightharpoonup> real"
  views :: "string \<rightharpoonup> int"
  clicks :: "string \<rightharpoonup> int"
  ctr_true :: "string \<rightharpoonup> real"

definition reference_env :: env where
  "reference_env =
    \<lparr> ads = [''crypto_magic'', ''green_energy'', ''infini_waves''],
      bid = [''crypto_magic'' \<mapsto> 0.7, ''green_energy'' \<mapsto> 0.5, ''infini_waves'' \<mapsto> 0.4],
      views = [''crypto_magic'' \<mapsto> 300, ''green_energy'' \<mapsto> 140, ''infini_waves'' \<mapsto> 60],
      clicks = [''crypto_magic'' \<mapsto> 9, ''green_energy'' \<mapsto> 3, ''infini_waves'' \<mapsto> 2],
      ctr_true = [''crypto_magic'' \<mapsto> 0.025, ''green_energy'' \<mapsto> 0.012,
                  ''infini_waves'' \<mapsto> 0.055] \<rparr>"

definition ev_true :: "env \<Rightarrow> error + (string \<rightharpoonup> real)" where
  \<comment> \<open>\<^verbatim>\<open>ev_true = {ad:bid[ad]*ctr_true[ad] for ad in ads}\<close>\<close>
  "ev_true E =
     dict_comp (\<lambda>ad. bind_r (getitem (bid E) ad) (\<lambda>bd.
                     bind_r (getitem (ctr_true E) ad) (\<lambda>p. Inr (bd * p))))
       (ads E) Map.empty"

text \<open>
  The notebook has the same loop twice: once over \<^verbatim>\<open>ev_true[ad]\<close> to find \<^verbatim>\<open>best\<close>,
  once inside \<^verbatim>\<open>TS\<close> over \<^verbatim>\<open>bid[ad]*ctr_prior[t][ad]\<close>:
  \<^verbatim>\<open>
  arg = None
  val = 0.0
  for ad in ads:
      if score(ad) > val:
          val = score(ad)
          arg = ad
  \<close>
  \<open>argmax_loop\<close> is the \<^verbatim>\<open>for\<close> loop with \<^verbatim>\<open>arg\<close> and \<^verbatim>\<open>val\<close> as accumulators.
\<close>

fun argmax_loop :: "('k \<Rightarrow> error + real) \<Rightarrow> 'k list \<Rightarrow> 'k option \<Rightarrow> real \<Rightarrow> error + 'k option" where
  "argmax_loop score [] arg val = Inr arg"
| "argmax_loop score (ad # rest) arg val =
     bind_r (score ad) (\<lambda>x.
       if x > val then argmax_loop score rest (Some ad) x
       else argmax_loop score rest arg val)"

definition best :: "env \<Rightarrow> (string \<rightharpoonup> real) \<Rightarrow> error + string option" where
  "best E ev = argmax_loop (getitem ev) (ads E) None 0"

subsection \<open>Initialization of the Beta parameters\<close>

definition initialization :: "env \<Rightarrow> error + ((string \<rightharpoonup> int) \<times> (string \<rightharpoonup> int))" where
  "initialization E =
     bind_r (dict_comp (getitem (clicks E)) (ads E) Map.empty) (\<lambda>a.
     bind_r (dict_comp (\<lambda>ad. bind_r (getitem (views E) ad) (\<lambda>v.
                             bind_r (getitem (clicks E) ad) (\<lambda>c. Inr (v - c))))
               (ads E) Map.empty) (\<lambda>b.
     Inr (a, b)))"

subsection \<open>Random draws\<close>

record 'g sampler =
  beta_draw :: "'g \<Rightarrow> real \<Rightarrow> real \<Rightarrow> real \<times> 'g"
  binomial_draw :: "'g \<Rightarrow> int \<Rightarrow> real \<Rightarrow> int \<times> 'g"

definition np_random_beta :: "'g sampler \<Rightarrow> 'g \<Rightarrow> int \<Rightarrow> int \<Rightarrow> error + (real \<times> 'g)" where
  \<comment> \<open>\<^verbatim>\<open>np.random.beta(a, b)\<close>: numpy raises ValueError unless both parameters are positive\<close>
  "np_random_beta S g x y =
     (if x \<le> 0 \<or> y \<le> 0 then Inl ValueError else Inr (beta_draw S g (of_int x) (of_int y)))"

definition np_random_binomial :: "'g sampler \<Rightarrow> 'g \<Rightarrow> int \<Rightarrow> real \<Rightarrow> error + (int \<times> 'g)" where
  \<comment> \<open>\<^verbatim>\<open>np.random.binomial(n, p)\<close>: numpy raises ValueError unless \<open>n \<ge> 0\<close> and \<open>0 \<le> p \<le> 1\<close>\<close>
  "np_random_binomial S g n p =
     (if n < 0 \<or> p < 0 \<or> 1 < p then Inl ValueError else Inr (binomial_draw S g n p))"

subsection \<open>The Thompson sampling run\<close>

text \<open>
  The local variables of \<^verbatim>\<open>TS\<close> and the generator state. \<open>a_par\<close> and \<open>b_par\<close> are the
  dictionaries \<^verbatim>\<open>a\<close> and \<^verbatim>\<open>b\<close>. The value returned by \<^verbatim>\<open>TS\<close> is this record at the end
  of the loop.
\<close>

record 'g run =
  reward :: "real list"
  regret :: "real list"
  ctr_prior :: "nat \<rightharpoonup> (string \<rightharpoonup> real)"
  a_par :: "string \<rightharpoonup> int"
  b_par :: "string \<rightharpoonup> int"
  rng :: 'g

fun sample_loop :: "'g sampler \<Rightarrow> nat \<Rightarrow> string list \<Rightarrow> 'g run \<Rightarrow> error + 'g run" where
  \<comment> \<open>\<^verbatim>\<open>for ad in ads: ctr_prior[t][ad] = np.random.beta(a[ad],b[ad])\<close>\<close>
  "sample_loop S t [] st = Inr st"
| "sample_loop S t (ad # rest) st =
     bind_r (getitem (a_par st) ad) (\<lambda>x.
     bind_r (getitem (b_par st) ad) (\<lambda>y.
     bind_r (np_random_beta S (rng st) x y) (\<lambda>(s, g').
     bind_r (getitem (ctr_prior st) t) (\<lambda>row.
     sample_loop S t rest
       (st\<lparr>ctr_prior := (ctr_prior st)(t \<mapsto> row(ad \<mapsto> s)), rng := g'\<rparr>)))))"

definition select_action :: "env \<Rightarrow> (nat \<rightharpoonup> (string \<rightharpoonup> real)) \<Rightarrow> nat \<Rightarrow> error + string option" where
  \<comment> \<open>the "select action" loop, score \<^verbatim>\<open>bid[ad]*ctr_prior[t][ad]\<close>\<close>
  "select_action E cp t =
     argmax_loop (\<lambda>ad. bind_r (getitem (bid E) ad) (\<lambda>bd.
                       bind_r (getitem cp t) (\<lambda>row.
                       bind_r (getitem row ad) (\<lambda>s. Inr (bd * s)))))
       (ads E) None 0"

definition update :: "'g run \<Rightarrow> string \<Rightarrow> int \<Rightarrow> error + 'g run" where
  \<comment> \<open>\<^verbatim>\<open>if click == 1: a[arg] += 1 else: b[arg] += 1\<close>\<close>
  "update st ad click =
     (if click = 1
      then bind_r (getitem (a_par st) ad) (\<lambda>x. Inr (st\<lparr>a_par := (a_par st)(ad \<mapsto> x + 1)\<rparr>))
      else bind_r (getitem (b_par st) ad) (\<lambda>y. Inr (st\<lparr>b_par := (b_par st)(ad \<mapsto> y + 1)\<rparr>)))"

definition TS_round ::
  "'g sampler \<Rightarrow> env \<Rightarrow> (string \<rightharpoonup> real) \<Rightarrow> string option \<Rightarrow> nat \<Rightarrow> 'g run \<Rightarrow> error + 'g run" where
  \<comment> \<open>the body of \<^verbatim>\<open>for t in range(T)\<close>; \<^verbatim>\<open>ctr_true[None]\<close> and \<^verbatim>\<open>ev_true[None]\<close> raise KeyError\<close>
  "TS_round S E ev bst t st =
     bind_r (sample_loop S t (ads E) st) (\<lambda>st1.
     bind_r (select_action E (ctr_prior st1) t) (\<lambda>arg.
     (case arg of None \<Rightarrow> Inl KeyError | Some ad \<Rightarrow>
     bind_r (getitem (ctr_true E) ad) (\<lambda>p.
     bind_r (np_random_binomial S (rng st1) 1 p) (\<lambda>(click, g').
     bind_r (getitem (bid E) ad) (\<lambda>bd.
     (case bst of None \<Rightarrow> Inl KeyError | Some bad \<Rightarrow>
     bind_r (getitem ev bad) (\<lambda>evb.
     bind_r (getitem ev ad) (\<lambda>eva.
     update (st1\<lparr>reward := reward st1 @ [bd * of_int click],
                 regret := regret st1 @ [evb - eva],
                 rng := g'\<rparr>) ad click)))))))))"

fun TS_loop ::
  "'g sampler \<Rightarrow> env \<Rightarrow> (string \<rightharpoonup> real) \<Rightarrow> string option \<Rightarrow> nat list \<Rightarrow> 'g run \<Rightarrow> error + 'g run" where
  "TS_loop S E ev bst [] st = Inr st"
| "TS_loop S E ev bst (t # ts) st = bind_r (TS_round S E ev bst t st) (TS_loop S E ev bst ts)"

definition TS ::
  "'g sampler \<Rightarrow> env \<Rightarrow> (string \<rightharpoonup> real) \<Rightarrow> string option \<Rightarrow> int \<Rightarrow> 'g \<Rightarrow> error + 'g run" where
  \<comment> \<open>\<^verbatim>\<open>range(T)\<close> is empty for \<open>T \<le> 0\<close>, hence \<open>nat T\<close> rounds\<close>
  "TS S E ev bst T g =
     bind_r (initialization E) (\<lambda>(a, b).
     TS_loop S E ev bst [0..<nat T]
       \<lparr>reward = [], regret = [],
        ctr_prior = (\<lambda>t. if t < nat T then Some Map.empty else None),
        a_par = a, b_par = b, rng = g\<rparr>)"

subsection \<open>Simulations and averages\<close>

fun replications ::
  "'g sampler \<Rightarrow> env \<Rightarrow> (string \<rightharpoonup> real) \<Rightarrow> string option \<Rightarrow> int \<Rightarrow> nat list \<Rightarrow> 'g
     \<Rightarrow> 'g run list \<Rightarrow> error + 'g run list" where
  \<comment> \<open>\<^verbatim>\<open>for r in range(R): all_reward[r],...,all_b[r] = TS()\<close>; entry \<open>r\<close> of the list is
      the tuple stored under key \<open>r\<close>\<close>
  "replications S E ev bst T [] g acc = Inr acc"
| "replications S E ev bst T (r # rs) g acc =
     bind_r (TS S E ev bst T g) (\<lambda>tr. replications S E ev bst T rs (rng tr) (acc @ [tr]))"

definition simulations :: "'g sampler \<Rightarrow> env \<Rightarrow> int \<Rightarrow> int \<Rightarrow> 'g \<Rightarrow> error + 'g run list" where
  \<comment> \<open>the cell that computes \<^verbatim>\<open>ev_true\<close> and \<^verbatim>\<open>best\<close>, followed by the simulation cell, for
      the globals \<^verbatim>\<open>T\<close> and \<^verbatim>\<open>R\<close>; the historical rates \<^verbatim>\<open>ctr_hist\<close> and \<^verbatim>\<open>ev_hist\<close>, which
      are only printed, are not modelled\<close>
  "simulations S E T R g =
     bind_r (ev_true E) (\<lambda>ev.
     bind_r (best E ev) (\<lambda>bst.
     replications S E ev bst T [0..<nat R] g []))"

text \<open>
  The averaging cell. \<^verbatim>\<open>all_reward[r]\<close>, ..., \<^verbatim>\<open>all_b[r]\<close> are the fields of entry \<open>r\<close>
  of the list of runs, and \<^verbatim>\<open>range(R)\<close> enumerates that list. \<^verbatim>\<open>np.mean\<close> of an empty
  list is NaN (with a warning, not an exception): \<open>None\<close> stands for it.
\<close>

definition np_mean :: "real list \<Rightarrow> real option" where
  "np_mean xs = (if xs = [] then None else Some (sum_list xs / real (length xs)))"

record averages =
  avg_reward :: "real option list"
  avg_regret :: "real option list"
  avg_ctr_prior :: "string \<rightharpoonup> real option list"
  avg_a :: "string \<rightharpoonup> real option"
  avg_b :: "string \<rightharpoonup> real option"

fun ctr_avg_loop ::
  "'g run list \<Rightarrow> nat \<Rightarrow> string list \<Rightarrow> (string \<rightharpoonup> real option list)
     \<Rightarrow> error + (string \<rightharpoonup> real option list)" where
  \<comment> \<open>\<^verbatim>\<open>for ad in ads: avg_ctr_prior[ad].append(np.mean([all_ctr_prior[r][t][ad] for r in range(R)]))\<close>\<close>
  "ctr_avg_loop reps t [] acp = Inr acp"
| "ctr_avg_loop reps t (ad # rest) acp =
     bind_r (list_comp (\<lambda>tr. bind_r (getitem (ctr_prior tr) t) (\<lambda>row. getitem row ad)) reps) (\<lambda>xs.
     bind_r (getitem acp ad) (\<lambda>l.
     ctr_avg_loop reps t rest (acp(ad \<mapsto> l @ [np_mean xs]))))"

fun round_avg_loop ::
  "'g run list \<Rightarrow> string list \<Rightarrow> nat list
     \<Rightarrow> real option list \<times> real option list \<times> (string \<rightharpoonup> real option list)
     \<Rightarrow> error + (real option list \<times> real option list \<times> (string \<rightharpoonup> real option list))" where
  \<comment> \<open>\<^verbatim>\<open>for t in range(T): ...\<close>\<close>
  "round_avg_loop reps as [] acc = Inr acc"
| "round_avg_loop reps as (t # ts) (ar, ag, acp) =
     bind_r (list_comp (\<lambda>tr. list_index (reward tr) t) reps) (\<lambda>xs.
     bind_r (list_comp (\<lambda>tr. list_index (regret tr) t) reps) (\<lambda>ys.
     bind_r (ctr_avg_loop reps t as acp) (\<lambda>acp'.
     round_avg_loop reps as ts (ar @ [np_mean xs], ag @ [np_mean ys], acp'))))"

fun final_avg_loop ::
  "'g run list \<Rightarrow> string list \<Rightarrow> (string \<rightharpoonup> real option) \<times> (string \<rightharpoonup> real option)
     \<Rightarrow> error + ((string \<rightharpoonup> real option) \<times> (string \<rightharpoonup> real option))" where
  \<comment> \<open>\<^verbatim>\<open>for ad in ads: avg_a[ad] = np.mean(...); avg_b[ad] = np.mean(...)\<close>\<close>
  "final_avg_loop reps [] acc = Inr acc"
| "final_avg_loop reps (ad # rest) (aa, ab) =
     bind_r (list_comp (\<lambda>tr. getitem (a_par tr) ad) reps) (\<lambda>xs.
     bind_r (list_comp (\<lambda>tr. getitem (b_par tr) ad) reps) (\<lambda>ys.
     final_avg_loop reps rest
       (aa(ad \<mapsto> np_mean (map of_int xs)), ab(ad \<mapsto> np_mean (map of_int ys)))))"

definition averaging :: "env \<Rightarrow> int \<Rightarrow> 'g run list \<Rightarrow> error + averages" where
  \<comment> \<open>\<^verbatim>\<open>avg_a\<close> and \<^verbatim>\<open>avg_b\<close> start as \<^verbatim>\<open>{ad:[] for ad in ads}\<close>; the last loop overwrites
      every entry, so the model starts them empty\<close>
  "averaging E T reps =
     bind_r (dict_comp (\<lambda>ad. Inr []) (ads E) Map.empty) (\<lambda>acp0.
     bind_r (round_avg_loop reps (ads E) [0..<nat T] ([], [], acp0)) (\<lambda>(ar, ag, acp).
     bind_r (final_avg_loop reps (ads E) (Map.empty, Map.empty)) (\<lambda>(aa, ab).
     Inr \<lparr>avg_reward = ar, avg_regret = ag, avg_ctr_prior = acp, avg_a = aa, avg_b = ab\<rparr>)))"

subsection \<open>Observations and concrete data\<close>

definition initial_parameters :: "env \<Rightarrow> string \<Rightarrow> error + (int \<times> int)" where
  \<comment> \<open>\<^verbatim>\<open>a,b = initialization()\<close> followed by the reads \<^verbatim>\<open>a[ad]\<close>, \<^verbatim>\<open>b[ad]\<close>, as in the
      cell that plots the priors\<close>
  "initial_parameters E ad =
     bind_r (initialization E) (\<lambda>(a, b).
     bind_r (getitem a ad) (\<lambda>x.
     bind_r (getitem b ad) (\<lambda>y. Inr (x, y))))"

definition TS_after ::
  "'g sampler \<Rightarrow> env \<Rightarrow> (string \<rightharpoonup> real) \<Rightarrow> string option \<Rightarrow> int \<Rightarrow> nat \<Rightarrow> 'g \<Rightarrow> error + 'g run" where
  \<comment> \<open>the local variables of \<^verbatim>\<open>TS()\<close> after the first \<open>k\<close> iterations of
      \<^verbatim>\<open>for t in range(T)\<close>\<close>
  "TS_after S E ev bst T k g =
     bind_r (initialization E) (\<lambda>(a, b).
     TS_loop S E ev bst [0..<k]
       \<lparr>reward = [], regret = [],
        ctr_prior = (\<lambda>t. if t < nat T then Some Map.empty else None),
        a_par = a, b_par = b, rng = g\<rparr>)"

fun feed :: "'g run \<Rightarrow> string \<Rightarrow> int list \<Rightarrow> error + 'g run" where
  \<comment> \<open>a sequence of outcomes of one arm, passed through \<open>update\<close> one after the other\<close>
  "feed st ad [] = Inr st"
| "feed st ad (click # rest) = bind_r (update st ad click) (\<lambda>st'. feed st' ad rest)"

definition demo_sampler :: "nat sampler" where
  \<comment> \<open>a deterministic stand-in for the generator, used to run the model on concrete data:
      the Beta draw returns \<open>k * x / (k * x + y)\<close> with \<open>k\<close> = 1, 2, 3 in turn, every third
      generator state yields a click\<close>
  "demo_sampler =
     \<lparr>beta_draw = (\<lambda>g x y. (real (1 + g mod 3) * x / (real (1 + g mod 3) * x + y), g + 1)),
      binomial_draw = (\<lambda>g n p. (if g mod 3 = 0 then 1 else 0, g + 1))\<rparr>"

definition two_arm_env :: env where
  "two_arm_env =
    \<lparr> ads = [''A'', ''B''],
      bid = [''A'' \<mapsto> 0.7, ''B'' \<mapsto> 0.5],
      views = [''A'' \<mapsto> 100, ''B'' \<mapsto> 100],
      clicks = [''A'' \<mapsto> 3, ''B'' \<mapsto> 5],
      ctr_true = [''A'' \<mapsto> 0.03, ''B'' \<mapsto> 0.05] \<rparr>"

definition two_arm_prior :: "nat \<rightharpoonup> (string \<rightharpoonup> real)" where
  "two_arm_prior = [0 \<mapsto> [''A'' \<mapsto> 0.03, ''B'' \<mapsto> 0.05]]"

definition one_arm_env :: env where
  "one_arm_env =
    \<lparr> ads = [''A''], bid = [''A'' \<mapsto> 0.7], views = [''A'' \<mapsto> 100], clicks = [''A'' \<mapsto> 3],
      ctr_true = [''A'' \<mapsto> 0.03] \<rparr>"

definition zero_sample_prior :: "nat \<rightharpoonup> (string \<rightharpoonup> real)" where
  "zero_sample_prior = [0 \<mapsto> [''A'' \<mapsto> 0]]"


definition unclicked_env :: env where
  \<comment> \<open>a single arm with no historical click\<close>
  "unclicked_env = one_arm_env\<lparr>views := [''A'' \<mapsto> 10], clicks := [''A'' \<mapsto> 0]\<rparr>"

definition product :: "env \<Rightarrow> (nat \<rightharpoonup> (string \<rightharpoonup> real)) \<Rightarrow> nat \<Rightarrow> string \<Rightarrow> real" where
  \<comment> \<open>the value of \<^verbatim>\<open>bid[ad]*ctr_prior[t][ad]\<close> where all three reads succeed (0 elsewhere)\<close>
  "product E cp t ad =
     (case (bid E ad, cp t) of
        (Some b, Some row) \<Rightarrow> (case row ad of Some x \<Rightarrow> b * x | None \<Rightarrow> 0)
      | _ \<Rightarrow> 0)"

fun spec_earliest_exceeding :: "(string \<Rightarrow> real) \<Rightarrow> string list \<Rightarrow> string list \<Rightarrow> string option" where
  \<comment> \<open>The selection rule in the words of claim C10, to be compared with \<open>select_action\<close>:
      the earliest arm whose product strictly exceeds 0 and the products of all earlier
      arms (\<open>seen\<close>)\<close>
  "spec_earliest_exceeding p seen [] = None"
| "spec_earliest_exceeding p seen (ad # rest) =
     (if 0 < p ad \<and> list_all (\<lambda>x. p x < p ad) seen then Some ad
      else spec_earliest_exceeding p (seen @ [ad]) rest)"

definition tie_env :: env where
  \<comment> \<open>two arms with the same bid\<close>
  "tie_env = two_arm_env\<lparr>bid := [''A'' \<mapsto> 0.5, ''B'' \<mapsto> 0.5]\<rparr>"

definition tie_prior :: "nat \<rightharpoonup> (string \<rightharpoonup> real)" where
  "tie_prior = [0 \<mapsto> [''A'' \<mapsto> 0.04, ''B'' \<mapsto> 0.04]]"

definition zero_sampler :: "nat sampler" where
  \<comment> \<open>a generator whose Beta draw is 0\<close>
  "zero_sampler = demo_sampler\<lparr>beta_draw := (\<lambda>g x y. (0, Suc g))\<rparr>"

definition one_arm_start :: "nat run" where
  \<comment> \<open>the variables of \<^verbatim>\<open>TS()\<close> before round 0, for \<open>one_arm_env\<close> and \<open>T = 1\<close>\<close>
  "one_arm_start =
     \<lparr>reward = [], regret = [], ctr_prior = [0 \<mapsto> Map.empty],
      a_par = [''A'' \<mapsto> 3], b_par = [''A'' \<mapsto> 97], rng = 0\<rparr>"

definition reference_start :: "nat run" where
  \<comment> \<open>the variables of \<^verbatim>\<open>TS()\<close> before round 0, for the reference data and \<open>T = 2\<close>\<close>
  "reference_start =
     \<lparr>reward = [], regret = [], ctr_prior = [0 \<mapsto> Map.empty, 1 \<mapsto> Map.empty],
      a_par = [''crypto_magic'' \<mapsto> 9, ''green_energy'' \<mapsto> 3, ''infini_waves'' \<mapsto> 2],
      b_par = [''crypto_magic'' \<mapsto> 291, ''green_energy'' \<mapsto> 137, ''infini_waves'' \<mapsto> 58],
      rng = 0\<rparr>"

definition run_one :: "nat run" where
  \<comment> \<open>a one-round run on \<open>two_arm_env\<close>: A selected (0.7 * 0.04) and clicked\<close>
  "run_one =
     \<lparr>reward = [0.7], regret = [0.004], ctr_prior = [0 \<mapsto> [''A'' \<mapsto> 0.04, ''B'' \<mapsto> 0.02]],
      a_par = [''A'' \<mapsto> 4, ''B'' \<mapsto> 5], b_par = [''A'' \<mapsto> 97, ''B'' \<mapsto> 95], rng = 3\<rparr>"

definition run_two :: "nat run" where
  \<comment> \<open>a one-round run on \<open>two_arm_env\<close>: B selected (0.5 * 0.06), no click\<close>
  "run_two =
     \<lparr>reward = [0], regret = [0], ctr_prior = [0 \<mapsto> [''A'' \<mapsto> 0.01, ''B'' \<mapsto> 0.06]],
      a_par = [''A'' \<mapsto> 3, ''B'' \<mapsto> 5], b_par = [''A'' \<mapsto> 97, ''B'' \<mapsto> 96], rng = 6\<rparr>"

section \<open>Properties\<close>

subsection \<open>Error propagation and dictionaries\<close>

lemma bind_r_Inr_iff: "bind_r m f = Inr y \<longleftrightarrow> (\<exists>v. m = Inr v \<and> f v = Inr y)"
  by (cases m) auto

lemma bind_r_Inl_iff: "bind_r m f = Inl e \<longleftrightarrow> m = Inl e \<or> (\<exists>v. m = Inr v \<and> f v = Inl e)"
  by (cases m) auto

lemma getitem_Inr_iff: "getitem d k = Inr v \<longleftrightarrow> d k = Some v"
  by (simp add: getitem_def split: option.splits)

lemma getitem_Inl_iff: "getitem d k = Inl e \<longleftrightarrow> d k = None \<and> e = KeyError"
  by (auto simp: getitem_def split: option.splits)

lemma dict_comp_total:
  "\<forall>k\<in>set ks. f k = Inr (h k) \<Longrightarrow>
   dict_comp f ks d = Inr (\<lambda>k. if k \<in> set ks then Some (h k) else d k)"
proof (induction ks arbitrary: d)
  case Nil
  then show ?case by simp
next
  case (Cons k ks)
  then have "dict_comp f (k # ks) d = Inr (\<lambda>x. if x \<in> set ks then Some (h x) else (d(k \<mapsto> h k)) x)"
    by simp
  also have "(\<lambda>x. if x \<in> set ks then Some (h x) else (d(k \<mapsto> h k)) x)
           = (\<lambda>x. if x \<in> set (k # ks) then Some (h x) else d x)"
    by auto
  finally show ?case .
qed

lemma dict_comp_Inr:
  "dict_comp f ks d = Inr d' \<Longrightarrow>
   \<exists>h. (\<forall>k\<in>set ks. f k = Inr (h k)) \<and> d' = (\<lambda>k. if k \<in> set ks then Some (h k) else d k)"
proof (induction ks arbitrary: d)
  case Nil
  then show ?case by simp
next
  case (Cons k ks)
  from Cons.prems obtain v where v: "f k = Inr v" and r: "dict_comp f ks (d(k \<mapsto> v)) = Inr d'"
    by (auto simp: bind_r_Inr_iff)
  from Cons.IH [OF r] obtain h where h: "\<forall>x\<in>set ks. f x = Inr (h x)"
    and d': "d' = (\<lambda>x. if x \<in> set ks then Some (h x) else (d(k \<mapsto> v)) x)" by blast
  let ?h = "h(k := v)"
  have "\<forall>x\<in>set (k # ks). f x = Inr (?h x)" using h v by auto
  moreover have "d' = (\<lambda>x. if x \<in> set (k # ks) then Some (?h x) else d x)"
    using h v unfolding d' by (auto simp: fun_eq_iff)
  ultimately show ?case by blast
qed

subsection \<open>Initialization\<close>

text \<open>
  C1 (as the code has it). For every arm of \<^verbatim>\<open>ads\<close> with historical views and clicks,
  \<^verbatim>\<open>initialization()\<close> returns \<open>a[ad] = clicks[ad]\<close> and \<open>b[ad] = views[ad] - clicks[ad]\<close>:
  the historical counts themselves, without a pseudo-count of 1.
\<close>

theorem initialization_counts:
  assumes "\<forall>ad\<in>set (ads E). clicks E ad = Some (c ad) \<and> views E ad = Some (v ad)"
  shows "\<exists>a b. initialization E = Inr (a, b) \<and>
           (\<forall>ad\<in>set (ads E). a ad = Some (c ad) \<and> b ad = Some (v ad - c ad))"
proof -
  have 1: "dict_comp (getitem (clicks E)) (ads E) Map.empty
             = Inr (\<lambda>k. if k \<in> set (ads E) then Some (c k) else None)"
    using assms by (intro dict_comp_total) (simp add: getitem_Inr_iff)
  have 2: "dict_comp (\<lambda>ad. bind_r (getitem (views E) ad) (\<lambda>v.
                             bind_r (getitem (clicks E) ad) (\<lambda>c. Inr (v - c))))
               (ads E) Map.empty
             = Inr (\<lambda>k. if k \<in> set (ads E) then Some (v k - c k) else None)"
    using assms by (intro dict_comp_total) (simp add: getitem_def)
  show ?thesis
    by (simp add: initialization_def 1 2)
qed

text \<open>With the reference table, \<open>crypto_magic\<close> starts at \<open>a = 9\<close>, \<open>b = 291\<close>.\<close>

theorem initialization_counts_witness:
  "\<exists>a b. initialization reference_env = Inr (a, b) \<and>
         a ''crypto_magic'' = Some 9 \<and> b ''crypto_magic'' = Some 291"
  using initialization_counts [of reference_env
      "the \<circ> clicks reference_env" "the \<circ> views reference_env"]
  by (auto simp: reference_env_def)

text \<open>The values \<open>10\<close> and \<open>292\<close> of the "+1" convention are not what the code returns.\<close>

theorem initialization_plus_one_counterexample:
  "initial_parameters reference_env ''crypto_magic'' = Inr (9, 291) \<and>
   initial_parameters reference_env ''crypto_magic'' \<noteq> Inr (10, 292)"
  by (simp add: initial_parameters_def initialization_def reference_env_def getitem_def)

subsection \<open>The argmax loop and the selection of the action\<close>

lemma argmax_loop_mem:
  "argmax_loop score xs arg val = Inr (Some ad) \<Longrightarrow> arg = Some ad \<or> ad \<in> set xs"
  by (induction xs arbitrary: arg val) (auto simp: bind_r_Inr_iff split: if_splits)

lemma argmax_loop_total:
  assumes "\<forall>ad\<in>set xs. score ad = Inr (sc ad)"
  shows "if \<forall>x\<in>set xs. sc x \<le> val then argmax_loop score xs arg val = Inr arg
         else \<exists>pre ad post. xs = pre @ ad # post \<and> argmax_loop score xs arg val = Inr (Some ad)
                \<and> val < sc ad \<and> (\<forall>x\<in>set pre. sc x < sc ad) \<and> (\<forall>x\<in>set post. sc x \<le> sc ad)"
  using assms
proof (induction xs arbitrary: arg val)
  case Nil
  then show ?case by simp
next
  case (Cons a xs)
  have sa: "score a = Inr (sc a)" and rest: "\<forall>ad\<in>set xs. score ad = Inr (sc ad)"
    using Cons.prems by auto
  show ?case
  proof (cases "val < sc a")
    case True
    then have step: "argmax_loop score (a # xs) arg val = argmax_loop score xs (Some a) (sc a)"
      by (simp add: sa)
    show ?thesis
    proof (cases "\<forall>x\<in>set xs. sc x \<le> sc a")
      case all: True
      with Cons.IH [OF rest, of "sc a" "Some a"]
      have "argmax_loop score xs (Some a) (sc a) = Inr (Some a)" by simp
      with step True all
      have "a # xs = [] @ a # xs \<and> argmax_loop score (a # xs) arg val = Inr (Some a)
              \<and> val < sc a \<and> (\<forall>x\<in>set []. sc x < sc a) \<and> (\<forall>x\<in>set xs. sc x \<le> sc a)"
        by simp
      then have "\<exists>pre ad post. a # xs = pre @ ad # post
              \<and> argmax_loop score (a # xs) arg val = Inr (Some ad)
              \<and> val < sc ad \<and> (\<forall>x\<in>set pre. sc x < sc ad) \<and> (\<forall>x\<in>set post. sc x \<le> sc ad)"
        by blast
      with True show ?thesis by auto
    next
      case False
      with Cons.IH [OF rest, of "sc a" "Some a"]
      obtain pre ad post where p: "xs = pre @ ad # post"
        "argmax_loop score xs (Some a) (sc a) = Inr (Some ad)" "sc a < sc ad"
        "\<forall>x\<in>set pre. sc x < sc ad" "\<forall>x\<in>set post. sc x \<le> sc ad"
        by auto
      with step True
      have "a # xs = (a # pre) @ ad # post \<and> argmax_loop score (a # xs) arg val = Inr (Some ad)
              \<and> val < sc ad \<and> (\<forall>x\<in>set (a # pre). sc x < sc ad) \<and> (\<forall>x\<in>set post. sc x \<le> sc ad)"
        by auto
      then have "\<exists>pre ad post. a # xs = pre @ ad # post
              \<and> argmax_loop score (a # xs) arg val = Inr (Some ad)
              \<and> val < sc ad \<and> (\<forall>x\<in>set pre. sc x < sc ad) \<and> (\<forall>x\<in>set post. sc x \<le> sc ad)"
        by blast
      with True show ?thesis by auto
    qed
  next
    case le: False
    then have step: "argmax_loop score (a # xs) arg val = argmax_loop score xs arg val"
      by (simp add: sa)
    show ?thesis
    proof (cases "\<forall>x\<in>set xs. sc x \<le> val")
      case True
      with Cons.IH [OF rest, of val arg] step le show ?thesis by simp
    next
      case False
      with Cons.IH [OF rest, of val arg]
      obtain pre ad post where p: "xs = pre @ ad # post"
        "argmax_loop score xs arg val = Inr (Some ad)" "val < sc ad"
        "\<forall>x\<in>set pre. sc x < sc ad" "\<forall>x\<in>set post. sc x \<le> sc ad"
        by auto
      with step le
      have "a # xs = (a # pre) @ ad # post \<and> argmax_loop score (a # xs) arg val = Inr (Some ad)
              \<and> val < sc ad \<and> (\<forall>x\<in>set (a # pre). sc x < sc ad) \<and> (\<forall>x\<in>set post. sc x \<le> sc ad)"
        by auto
      then have "\<exists>pre ad post. a # xs = pre @ ad # post
              \<and> argmax_loop score (a # xs) arg val = Inr (Some ad)
              \<and> val < sc ad \<and> (\<forall>x\<in>set pre. sc x < sc ad) \<and> (\<forall>x\<in>set post. sc x \<le> sc ad)"
        by blast
      with False show ?thesis by auto
    qed
  qed
qed

lemma select_action_total:
  assumes "cp t = Some s"
      and "\<forall>ad\<in>set (ads E). bid E ad = Some (bd ad) \<and> s ad = Some (smp ad)"
  shows "if \<forall>x\<in>set (ads E). bd x * smp x \<le> 0 then select_action E cp t = Inr None
         else \<exists>pre ad post. ads E = pre @ ad # post \<and> select_action E cp t = Inr (Some ad)
                \<and> 0 < bd ad * smp ad \<and> (\<forall>x\<in>set pre. bd x * smp x < bd ad * smp ad)
                \<and> (\<forall>x\<in>set post. bd x * smp x \<le> bd ad * smp ad)"
  unfolding select_action_def
  by (rule argmax_loop_total) (use assms in \<open>simp add: getitem_def\<close>)




text \<open>
  C10 (as the code has it). With the products \<open>bid * sample\<close> of the round: if no product
  is strictly positive the selection is \<^verbatim>\<open>None\<close> and the round fails (\<^verbatim>\<open>ctr_true[None]\<close>
  raises KeyError); otherwise the selected arm splits \<^verbatim>\<open>ads\<close> into the arms before it,
  whose products are all strictly smaller, and the arms after it, whose products are not
  larger, and its own product is strictly positive. So the selected arm is the earliest
  arm that attains the maximum, which is the last (not the earliest) arm whose product
  strictly exceeds 0 and the products of all earlier arms.
\<close>

theorem select_action_rule:
  assumes "cp t = Some s"
      and "\<forall>ad\<in>set (ads E). bid E ad = Some (bd ad) \<and> s ad = Some (smp ad)"
  shows "if \<forall>x\<in>set (ads E). bd x * smp x \<le> 0
         then select_action E cp t = Inr None \<and>
              (\<forall>S ev bst st st1. sample_loop S t (ads E) st = Inr st1 \<longrightarrow> ctr_prior st1 = cp
                 \<longrightarrow> TS_round S E ev bst t st = Inl KeyError)
         else \<exists>pre ad post. ads E = pre @ ad # post \<and> select_action E cp t = Inr (Some ad)
                \<and> 0 < bd ad * smp ad \<and> (\<forall>x\<in>set pre. bd x * smp x < bd ad * smp ad)
                \<and> (\<forall>x\<in>set post. bd x * smp x \<le> bd ad * smp ad)"
proof (cases "\<forall>x\<in>set (ads E). bd x * smp x \<le> 0")
  case True
  with select_action_total [of cp t s E bd smp] assms
  have none: "select_action E cp t = Inr None" by simp
  then have "TS_round S E ev bst t st = Inl KeyError"
    if "sample_loop S t (ads E) st = Inr st1" "ctr_prior st1 = cp" for S ev bst st and st1 :: "'a run"
    using that by (simp add: TS_round_def)
  with none True show ?thesis by simp
next
  case False
  with select_action_total [of cp t s E bd smp] assms
  have "\<exists>pre ad post. ads E = pre @ ad # post \<and> select_action E cp t = Inr (Some ad)
                \<and> 0 < bd ad * smp ad \<and> (\<forall>x\<in>set pre. bd x * smp x < bd ad * smp ad)
                \<and> (\<forall>x\<in>set post. bd x * smp x \<le> bd ad * smp ad)"
    by simp
  with False show ?thesis by (simp only: if_False)
qed

text \<open>
  A tie goes to the earlier arm; a single arm with sample 0 is not selected, and the round
  that drew this sample fails.
\<close>

theorem select_action_rule_witness:
  "select_action tie_env tie_prior 0 = Inr (Some ''A'') \<and>
   select_action one_arm_env zero_sample_prior 0 = Inr None \<and>
   TS_round zero_sampler one_arm_env [''A'' \<mapsto> 0.021] (Some ''A'') 0 one_arm_start = Inl KeyError"
proof -
  have tie: "select_action tie_env tie_prior 0 = Inr (Some ''A'')"
    using select_action_rule [of tie_prior 0 "[''A'' \<mapsto> 0.04, ''B'' \<mapsto> 0.04]" tie_env
      "the \<circ> bid tie_env" "the \<circ> [''A'' \<mapsto> 0.04, ''B'' \<mapsto> 0.04]"]
    by (auto simp: tie_env_def two_arm_env_def tie_prior_def Cons_eq_append_conv)
  have smp: "sample_loop zero_sampler 0 (ads one_arm_env) one_arm_start
               = Inr (one_arm_start\<lparr>ctr_prior := zero_sample_prior, rng := 1\<rparr>)"
    by (simp add: one_arm_env_def one_arm_start_def zero_sampler_def demo_sampler_def
        zero_sample_prior_def getitem_def np_random_beta_def)
  have "\<forall>x\<in>set (ads one_arm_env). (the \<circ> bid one_arm_env) x * (the \<circ> [''A'' \<mapsto> 0::real]) x \<le> 0"
    by (simp add: one_arm_env_def)
  with select_action_rule [of zero_sample_prior 0 "[''A'' \<mapsto> 0]" one_arm_env
      "the \<circ> bid one_arm_env" "the \<circ> [''A'' \<mapsto> 0]"]
  have "select_action one_arm_env zero_sample_prior 0 = Inr None \<and>
        (\<forall>(S::nat sampler) ev bst st st1. sample_loop S 0 (ads one_arm_env) st = Inr st1
            \<longrightarrow> ctr_prior st1 = zero_sample_prior
            \<longrightarrow> TS_round S one_arm_env ev bst 0 st = Inl KeyError)"
    by (simp add: zero_sample_prior_def one_arm_env_def)
  with smp tie show ?thesis by simp
qed

text \<open>
  The rule in the claim's words selects A for the arms A (0.7 * 0.03) and B (0.5 * 0.05):
  A is the earliest arm whose product exceeds 0 and every earlier product. The code
  selects B.
\<close>

theorem earliest_exceeding_counterexample:
  "spec_earliest_exceeding (product two_arm_env two_arm_prior 0) [] (ads two_arm_env) = Some ''A'' \<and>
   select_action two_arm_env two_arm_prior 0 = Inr (Some ''B'')"
  by (simp add: product_def select_action_def two_arm_env_def two_arm_prior_def getitem_def)

subsection \<open>One round\<close>

lemma sample_loop_frame:
  "sample_loop S t xs st = Inr st1 \<Longrightarrow>
   reward st1 = reward st \<and> regret st1 = regret st \<and> a_par st1 = a_par st \<and> b_par st1 = b_par st"
proof (induction xs arbitrary: st)
  case Nil
  then show ?case by simp
next
  case (Cons ad xs)
  from Cons.prems obtain x y s g' row where
    "sample_loop S t xs (st\<lparr>ctr_prior := (ctr_prior st)(t \<mapsto> row(ad \<mapsto> s)), rng := g'\<rparr>) = Inr st1"
    by (auto simp: bind_r_Inr_iff)
  from Cons.IH [OF this] show ?case by simp
qed

lemma sample_loop_rows:
  "sample_loop S t xs st = Inr st1 \<Longrightarrow>
   (\<forall>u. u \<noteq> t \<longrightarrow> ctr_prior st1 u = ctr_prior st u) \<and>
   (xs \<noteq> [] \<longrightarrow> (\<exists>row0 row. ctr_prior st t = Some row0 \<and> ctr_prior st1 t = Some row \<and>
       dom row = dom row0 \<union> set xs))"
proof (induction xs arbitrary: st)
  case Nil
  then show ?case by simp
next
  case (Cons ad xs)
  from Cons.prems obtain x y s g' row0 where row0: "ctr_prior st t = Some row0"
    and rest: "sample_loop S t xs (st\<lparr>ctr_prior := (ctr_prior st)(t \<mapsto> row0(ad \<mapsto> s)), rng := g'\<rparr>) = Inr st1"
    by (auto simp: bind_r_Inr_iff getitem_Inr_iff)
  let ?st = "st\<lparr>ctr_prior := (ctr_prior st)(t \<mapsto> row0(ad \<mapsto> s)), rng := g'\<rparr>"
  from Cons.IH [OF rest]
  have other: "\<forall>u. u \<noteq> t \<longrightarrow> ctr_prior st1 u = ctr_prior ?st u"
    and rows: "xs \<noteq> [] \<longrightarrow> (\<exists>r0 row. ctr_prior ?st t = Some r0 \<and> ctr_prior st1 t = Some row \<and>
       dom row = dom r0 \<union> set xs)"
    by blast+
  have "\<exists>row. ctr_prior st1 t = Some row \<and> dom row = dom row0 \<union> set (ad # xs)"
  proof (cases xs)
    case Nil
    with rest show ?thesis by auto
  next
    case (Cons z zs)
    with rows show ?thesis by auto
  qed
  with other row0 show ?case by simp
qed

lemma update_Inr:
  "update st ad click = Inr st' \<Longrightarrow>
   (if click = 1
    then \<exists>x. a_par st ad = Some x \<and> st' = st\<lparr>a_par := (a_par st)(ad \<mapsto> x + 1)\<rparr>
    else \<exists>y. b_par st ad = Some y \<and> st' = st\<lparr>b_par := (b_par st)(ad \<mapsto> y + 1)\<rparr>)"
  by (auto simp: update_def bind_r_Inr_iff getitem_Inr_iff split: if_splits)

lemma TS_round_InrD:
  assumes "TS_round S E ev bst t st = Inr st'"
  obtains st1 ad p click g' bd bad evb eva where
    "sample_loop S t (ads E) st = Inr st1"
    "select_action E (ctr_prior st1) t = Inr (Some ad)"
    "ctr_true E ad = Some p" "0 \<le> p" "p \<le> 1"
    "binomial_draw S (rng st1) 1 p = (click, g')"
    "bid E ad = Some bd" "bst = Some bad" "ev bad = Some evb" "ev ad = Some eva"
    "update (st1\<lparr>reward := reward st1 @ [bd * of_int click],
                  regret := regret st1 @ [evb - eva], rng := g'\<rparr>) ad click = Inr st'"
proof -
  from assms obtain st1 arg where 1: "sample_loop S t (ads E) st = Inr st1"
    and 2: "select_action E (ctr_prior st1) t = Inr arg"
    and r2: "(case arg of None \<Rightarrow> Inl KeyError | Some ad \<Rightarrow>
       bind_r (getitem (ctr_true E) ad) (\<lambda>p.
       bind_r (np_random_binomial S (rng st1) 1 p) (\<lambda>(click, g').
       bind_r (getitem (bid E) ad) (\<lambda>bd.
       (case bst of None \<Rightarrow> Inl KeyError | Some bad \<Rightarrow>
       bind_r (getitem ev bad) (\<lambda>evb.
       bind_r (getitem ev ad) (\<lambda>eva.
       update (st1\<lparr>reward := reward st1 @ [bd * of_int click],
                   regret := regret st1 @ [evb - eva],
                   rng := g'\<rparr>) ad click))))))) = Inr st'"
    unfolding TS_round_def bind_r_Inr_iff by blast
  from r2 obtain ad where arg: "arg = Some ad" by (cases arg) auto
  from r2 [unfolded arg option.case bind_r_Inr_iff getitem_Inr_iff]
  obtain p cg where 3: "ctr_true E ad = Some p" and 4: "np_random_binomial S (rng st1) 1 p = Inr cg"
    and r4: "(case cg of (click, g') \<Rightarrow>
       bind_r (getitem (bid E) ad) (\<lambda>bd.
       (case bst of None \<Rightarrow> Inl KeyError | Some bad \<Rightarrow>
       bind_r (getitem ev bad) (\<lambda>evb.
       bind_r (getitem ev ad) (\<lambda>eva.
       update (st1\<lparr>reward := reward st1 @ [bd * of_int click],
                   regret := regret st1 @ [evb - eva],
                   rng := g'\<rparr>) ad click))))) = Inr st'"
    by blast
  obtain click g' where cg: "cg = (click, g')" by (cases cg)
  from 4 cg have p: "0 \<le> p" "p \<le> 1" and draw: "binomial_draw S (rng st1) 1 p = (click, g')"
    by (auto simp: np_random_binomial_def split: if_splits)
  from r4 [unfolded cg prod.case bind_r_Inr_iff getitem_Inr_iff]
  obtain bd where 5: "bid E ad = Some bd"
    and r5: "(case bst of None \<Rightarrow> Inl KeyError | Some bad \<Rightarrow>
       bind_r (getitem ev bad) (\<lambda>evb.
       bind_r (getitem ev ad) (\<lambda>eva.
       update (st1\<lparr>reward := reward st1 @ [bd * of_int click],
                   regret := regret st1 @ [evb - eva],
                   rng := g'\<rparr>) ad click))) = Inr st'"
    by blast
  from r5 obtain bad where bst: "bst = Some bad" by (cases bst) auto
  from r5 [unfolded bst option.case bind_r_Inr_iff getitem_Inr_iff]
  obtain evb eva where 6: "ev bad = Some evb" "ev ad = Some eva"
    and 7: "update (st1\<lparr>reward := reward st1 @ [bd * of_int click],
                   regret := regret st1 @ [evb - eva], rng := g'\<rparr>) ad click = Inr st'"
    by blast
  from 1 2 [unfolded arg] 3 p draw 5 bst 6 7 show thesis by (rule that)
qed

lemma select_action_mem: "select_action E cp t = Inr (Some ad) \<Longrightarrow> ad \<in> set (ads E)"
  unfolding select_action_def by (drule argmax_loop_mem) simp





lemma TS_round_facts:
  assumes "TS_round S E ev bst t st = Inr st'"
  shows "\<exists>st1 row ad p click g' bd bad evb eva.
        sample_loop S t (ads E) st = Inr st1 \<and>
        a_par st1 = a_par st \<and> b_par st1 = b_par st \<and>
        reward st1 = reward st \<and> regret st1 = regret st \<and>
        ctr_prior st1 t = Some row \<and> set (ads E) \<subseteq> dom row \<and>
        select_action E (ctr_prior st1) t = Inr (Some ad) \<and> ad \<in> set (ads E) \<and>
        ctr_true E ad = Some p \<and> binomial_draw S (rng st1) 1 p = (click, g') \<and>
        bid E ad = Some bd \<and> reward st' = reward st @ [bd * of_int click] \<and>
        bst = Some bad \<and> ev bad = Some evb \<and> ev ad = Some eva \<and>
        regret st' = regret st @ [evb - eva] \<and>
        update (st1\<lparr>reward := reward st @ [bd * of_int click],
                    regret := regret st @ [evb - eva], rng := g'\<rparr>) ad click = Inr st' \<and>
        ctr_prior st' = ctr_prior st1 \<and> rng st' = g' \<and>
        (\<forall>x. x \<noteq> ad \<longrightarrow> a_par st' x = a_par st x \<and> b_par st' x = b_par st x) \<and>
        (if click = 1
         then (\<exists>x. a_par st ad = Some x \<and> a_par st' ad = Some (x + 1)) \<and> b_par st' ad = b_par st ad
         else (\<exists>y. b_par st ad = Some y \<and> b_par st' ad = Some (y + 1)) \<and> a_par st' ad = a_par st ad)"
proof -
  from assms obtain st1 ad p click g' bd bad evb eva where
    1: "sample_loop S t (ads E) st = Inr st1" and
    2: "select_action E (ctr_prior st1) t = Inr (Some ad)" and
    3: "ctr_true E ad = Some p" "binomial_draw S (rng st1) 1 p = (click, g')" and
    4: "bid E ad = Some bd" "bst = Some bad" "ev bad = Some evb" "ev ad = Some eva" and
    5: "update (st1\<lparr>reward := reward st1 @ [bd * of_int click],
                  regret := regret st1 @ [evb - eva], rng := g'\<rparr>) ad click = Inr st'"
    by (rule TS_round_InrD)
  note fr = sample_loop_frame [OF 1]
  have mem: "ad \<in> set (ads E)" using 2 by (rule select_action_mem)
  then have ne: "ads E \<noteq> []" by auto
  with sample_loop_rows [OF 1] obtain row where
    row: "ctr_prior st1 t = Some row" "set (ads E) \<subseteq> dom row" by auto
  let ?st2 = "st1\<lparr>reward := reward st @ [bd * of_int click],
                  regret := regret st @ [evb - eva], rng := g'\<rparr>"
  from 5 fr have u5: "update ?st2 ad click = Inr st'" by simp
  have upd: "reward st' = reward st @ [bd * of_int click]"
    "regret st' = regret st @ [evb - eva]"
    "ctr_prior st' = ctr_prior st1" "rng st' = g'"
    "\<forall>x. x \<noteq> ad \<longrightarrow> a_par st' x = a_par st x \<and> b_par st' x = b_par st x"
    "if click = 1
     then (\<exists>x. a_par st ad = Some x \<and> a_par st' ad = Some (x + 1)) \<and> b_par st' ad = b_par st ad
     else (\<exists>y. b_par st ad = Some y \<and> b_par st' ad = Some (y + 1)) \<and> a_par st' ad = a_par st ad"
    using update_Inr [OF u5] fr by (auto split: if_splits)
  from 1 fr row 2 mem 3 4 u5 upd show ?thesis by blast
qed




subsection \<open>Regret\<close>

lemma ev_true_Inr:
  assumes "ev_true E = Inr ev"
  shows "\<exists>h. (\<forall>ad\<in>set (ads E). getitem ev ad = Inr (h ad)) \<and> dom ev = set (ads E)"
proof -
  from dict_comp_Inr [OF assms [unfolded ev_true_def]]
  obtain h where "ev = (\<lambda>k. if k \<in> set (ads E) then Some (h k) else None)" by blast
  then have "(\<forall>ad\<in>set (ads E). getitem ev ad = Inr (h ad)) \<and> dom ev = set (ads E)"
    by (auto simp: getitem_def dom_def)
  then show ?thesis by blast
qed

lemma best_is_max:
  assumes "ev_true E = Inr ev" and "best E ev = Inr (Some bad)" and "ev ad = Some va"
  shows "\<exists>vb. ev bad = Some vb \<and> va \<le> vb"
proof -
  from ev_true_Inr [OF assms(1)] obtain h where
    h: "\<forall>ad\<in>set (ads E). getitem ev ad = Inr (h ad)" and d: "dom ev = set (ads E)" by blast
  from assms(3) d have ad: "ad \<in> set (ads E)" by auto
  with h assms(3) have va: "h ad = va" by (auto simp: getitem_Inr_iff)
  show ?thesis
  proof (cases "\<forall>x\<in>set (ads E). h x \<le> 0")
    case True
    with argmax_loop_total [OF h, of 0 None] assms(2) show ?thesis by (simp add: best_def)
  next
    case False
    with argmax_loop_total [OF h, of 0 None] assms(2)
    obtain pre post where p: "ads E = pre @ bad # post"
      "\<forall>x\<in>set pre. h x < h bad" "\<forall>x\<in>set post. h x \<le> h bad"
      by (auto simp: best_def)
    then have "bad \<in> set (ads E)" "h ad \<le> h bad" using ad by (auto simp: less_imp_le)
    with h va show ?thesis by (auto simp: getitem_Inr_iff)
  qed
qed

lemma TS_round_regret:
  assumes "ev_true E = Inr ev" and "best E ev = Inr bst"
      and "TS_round S E ev bst t st = Inr st'"
  shows "\<exists>x. 0 \<le> x \<and> regret st' = regret st @ [x] \<and> length (reward st') = Suc (length (reward st))"
proof -
  from TS_round_facts [OF assms(3)] obtain ad bad evb eva where
    f: "bst = Some bad" "ev bad = Some evb" "ev ad = Some eva"
       "regret st' = regret st @ [evb - eva]"
    and r: "\<exists>x. reward st' = reward st @ [x]" by blast
  from best_is_max [OF assms(1) assms(2) [unfolded f(1)] f(3)] f(2) have "eva \<le> evb" by simp
  with f(4) r show ?thesis by auto
qed

lemma TS_loop_regret:
  assumes "ev_true E = Inr ev" and "best E ev = Inr bst"
  shows "TS_loop S E ev bst ts st = Inr st' \<Longrightarrow> \<forall>x\<in>set (regret st). 0 \<le> x \<Longrightarrow>
         (\<forall>x\<in>set (regret st'). 0 \<le> x) \<and> length (regret st') = length (regret st) + length ts"
proof (induction ts arbitrary: st)
  case Nil
  then show ?case by simp
next
  case (Cons t ts)
  from Cons.prems(1) obtain st1 where 1: "TS_round S E ev bst t st = Inr st1"
    and 2: "TS_loop S E ev bst ts st1 = Inr st'" by (auto simp: bind_r_Inr_iff)
  from TS_round_regret [OF assms 1] Cons.prems(2)
  have "\<forall>x\<in>set (regret st1). 0 \<le> x" "length (regret st1) = Suc (length (regret st))" by auto
  with Cons.IH [OF 2] show ?case by simp
qed

lemma TS_regret:
  assumes "ev_true E = Inr ev" and "best E ev = Inr bst" and "TS S E ev bst T g = Inr tr"
  shows "(\<forall>x\<in>set (regret tr). 0 \<le> x) \<and> length (regret tr) = nat T"
proof -
  from assms(3) obtain a b where
    "TS_loop S E ev bst [0..<nat T]
       \<lparr>reward = [], regret = [],
        ctr_prior = (\<lambda>t. if t < nat T then Some Map.empty else None),
        a_par = a, b_par = b, rng = g\<rparr> = Inr tr"
    by (auto simp: TS_def bind_r_Inr_iff)
  from TS_loop_regret [OF assms(1,2) this] show ?thesis by simp
qed

lemma replications_set:
  "replications S E ev bst T rs g acc = Inr reps \<Longrightarrow> tr \<in> set reps \<Longrightarrow>
   tr \<in> set acc \<or> (\<exists>g'. TS S E ev bst T g' = Inr tr)"
proof (induction rs arbitrary: g acc)
  case Nil
  then show ?case by simp
next
  case (Cons r rs)
  from Cons.prems(1) obtain tr1 where 1: "TS S E ev bst T g = Inr tr1"
    and 2: "replications S E ev bst T rs (rng tr1) (acc @ [tr1]) = Inr reps"
    by (auto simp: bind_r_Inr_iff)
  from Cons.IH [OF 2 Cons.prems(2)] 1 show ?case by auto
qed

lemma replications_length:
  "replications S E ev bst T rs g acc = Inr reps \<Longrightarrow> length reps = length acc + length rs"
proof (induction rs arbitrary: g acc)
  case Nil
  then show ?case by simp
next
  case (Cons r rs)
  from Cons.prems(1) obtain tr1 where
    "replications S E ev bst T rs (rng tr1) (acc @ [tr1]) = Inr reps"
    by (auto simp: bind_r_Inr_iff)
  from Cons.IH [OF this] show ?case by simp
qed

text \<open>
  C2. When the simulations complete, every replication has recorded one regret for each
  of its \<open>T\<close> rounds, and every recorded regret is at least 0.
\<close>

theorem regret_nonnegative:
  assumes "simulations S E T R g = Inr reps"
  shows "length reps = nat R \<and>
         (\<forall>tr\<in>set reps. length (regret tr) = nat T \<and> (\<forall>x\<in>set (regret tr). 0 \<le> x))"
proof -
  from assms obtain ev bst where ev: "ev_true E = Inr ev" and bst: "best E ev = Inr bst"
    and reps: "replications S E ev bst T [0..<nat R] g [] = Inr reps"
    by (auto simp: simulations_def bind_r_Inr_iff)
  have "length (regret tr) = nat T \<and> (\<forall>x\<in>set (regret tr). 0 \<le> x)" if "tr \<in> set reps" for tr
  proof -
    from replications_set [OF reps that] obtain g' where "TS S E ev bst T g' = Inr tr" by auto
    from TS_regret [OF ev bst this] show ?thesis by simp
  qed
  with replications_length [OF reps] show ?thesis by simp
qed

text \<open>Two replications of two rounds on the reference data.\<close>

theorem regret_nonnegative_witness:
  "\<exists>reps. simulations demo_sampler reference_env 2 2 0 = Inr reps \<and>
      map regret reps = [[0, 9 / 2000], [9 / 2000, 0]] \<and>
      list_all (\<lambda>tr. list_all (\<lambda>x. 0 \<le> x) (regret tr)) reps"
proof -
  have run: "\<exists>reps. simulations demo_sampler reference_env 2 2 0 = Inr reps \<and>
      map regret reps = [[0, 9 / 2000], [9 / 2000, 0]]"
    by (simp add: simulations_def ev_true_def best_def TS_def initialization_def TS_round_def
        select_action_def update_def np_random_beta_def np_random_binomial_def demo_sampler_def
        reference_env_def getitem_def upt_rec [of _ "numeral _"] upt_rec [of 0 "Suc _"])
  then obtain reps where reps: "simulations demo_sampler reference_env 2 2 0 = Inr reps"
    and regs: "map regret reps = [[0, 9 / 2000], [9 / 2000, 0]]" by (elim exE conjE)
  from regret_nonnegative [OF reps]
  have "list_all (\<lambda>tr. list_all (\<lambda>x. 0 \<le> x) (regret tr)) reps"
    by (simp add: list_all_iff)
  with reps regs show ?thesis by (intro exI [of _ reps] conjI)
qed

subsection \<open>The posterior update\<close>

lemma update_total:
  assumes "a_par st ad = Some x" and "b_par st ad = Some y"
  shows "update st ad click =
           Inr (if click = 1 then st\<lparr>a_par := (a_par st)(ad \<mapsto> x + 1)\<rparr>
                else st\<lparr>b_par := (b_par st)(ad \<mapsto> y + 1)\<rparr>)"
  using assms by (simp add: update_def getitem_def)

lemma feed_total:
  assumes "a_par st ad = Some x" and "b_par st ad = Some y"
  shows "feed st ad outs =
           Inr (st\<lparr>a_par := (a_par st)(ad \<mapsto> x + int (count_list outs 1)),
                    b_par := (b_par st)(ad \<mapsto> y + (int (length outs) - int (count_list outs 1)))\<rparr>)"
  using assms
proof (induction outs arbitrary: st x y)
  case Nil
  then have "(a_par st)(ad \<mapsto> x) = a_par st" "(b_par st)(ad \<mapsto> y) = b_par st"
    by (auto simp: fun_upd_idem)
  then show ?case by simp
next
  case (Cons click outs)
  have len: "int (length (click # outs)) = int (length outs) + 1" by simp
  show ?case
  proof (cases "click = 1")
    case True
    let ?st = "st\<lparr>a_par := (a_par st)(ad \<mapsto> x + 1)\<rparr>"
    have cnt: "int (count_list (click # outs) 1) = int (count_list outs 1) + 1"
      using True by simp
    have "feed st ad (click # outs) = feed ?st ad outs"
      using update_total [OF Cons.prems, of click] True by simp
    also have "\<dots> = Inr (?st\<lparr>a_par := (a_par ?st)(ad \<mapsto> (x + 1) + int (count_list outs 1)),
                    b_par := (b_par ?st)(ad \<mapsto> y + (int (length outs) - int (count_list outs 1)))\<rparr>)"
      using Cons.prems by (intro Cons.IH) simp_all
    finally have "feed st ad (click # outs)
        = Inr (st\<lparr>a_par := (a_par st)(ad \<mapsto> (x + 1) + int (count_list outs 1)),
                    b_par := (b_par st)(ad \<mapsto> y + (int (length outs) - int (count_list outs 1)))\<rparr>)"
      by simp
    moreover have "x + (int (count_list outs 1) + 1) = x + 1 + int (count_list outs 1)"
      "y + (int (length outs) + 1 - (int (count_list outs 1) + 1))
         = y + (int (length outs) - int (count_list outs 1))"
      by simp_all
    ultimately show ?thesis unfolding cnt len by (simp only:)
  next
    case False
    let ?st = "st\<lparr>b_par := (b_par st)(ad \<mapsto> y + 1)\<rparr>"
    have cnt: "int (count_list (click # outs) 1) = int (count_list outs 1)"
      using False by simp
    have "feed st ad (click # outs) = feed ?st ad outs"
      using update_total [OF Cons.prems, of click] False by simp
    also have "\<dots> = Inr (?st\<lparr>a_par := (a_par ?st)(ad \<mapsto> x + int (count_list outs 1)),
                    b_par := (b_par ?st)(ad \<mapsto> (y + 1) + (int (length outs) - int (count_list outs 1)))\<rparr>)"
      using Cons.prems by (intro Cons.IH) simp_all
    finally have "feed st ad (click # outs)
        = Inr (st\<lparr>a_par := (a_par st)(ad \<mapsto> x + int (count_list outs 1)),
                    b_par := (b_par st)(ad \<mapsto> (y + 1) + (int (length outs) - int (count_list outs 1)))\<rparr>)"
      by simp
    moreover have "y + (int (length outs) + 1 - int (count_list outs 1))
         = y + 1 + (int (length outs) - int (count_list outs 1))"
      by simp
    ultimately show ?thesis unfolding cnt len by (simp only:)
  qed
qed

text \<open>
  C4. Starting from the state that \<^verbatim>\<open>initialization()\<close> returns, a sequence of \<open>m\<close>
  outcomes of an arm of \<^verbatim>\<open>ads\<close>, \<open>n\<close> of them equal to 1, passed through the update leaves
  \<open>a[ad] = initial a[ad] + n\<close> and \<open>b[ad] = initial b[ad] + (m - n)\<close>, and nothing else
  changes: the other arms, the rewards, the regrets, the samples and the generator state
  are as before. One outcome 1 adds 1 to \<open>a[ad]\<close> only, any other outcome adds 1 to
  \<open>b[ad]\<close> only, so neither parameter ever decreases.
\<close>

theorem update_round_trip:
  assumes "initialization E = Inr (a_par st, b_par st)" and "ad \<in> set (ads E)"
  shows "\<exists>x y. a_par st ad = Some x \<and> b_par st ad = Some y \<and>
           feed st ad outs =
             Inr (st\<lparr>a_par := (a_par st)(ad \<mapsto> x + int (count_list outs 1)),
                      b_par := (b_par st)(ad \<mapsto> y + (int (length outs) - int (count_list outs 1)))\<rparr>) \<and>
           x \<le> x + int (count_list outs 1) \<and>
           y \<le> y + (int (length outs) - int (count_list outs 1)) \<and>
           update st ad click =
             Inr (if click = 1 then st\<lparr>a_par := (a_par st)(ad \<mapsto> x + 1)\<rparr>
                  else st\<lparr>b_par := (b_par st)(ad \<mapsto> y + 1)\<rparr>)"
proof -
  from assms(1) obtain a b where
    a: "dict_comp (getitem (clicks E)) (ads E) Map.empty = Inr (a_par st)"
    and b: "dict_comp (\<lambda>ad. bind_r (getitem (views E) ad) (\<lambda>v.
                             bind_r (getitem (clicks E) ad) (\<lambda>c. Inr (v - c))))
               (ads E) Map.empty = Inr (b_par st)"
    by (auto simp: initialization_def bind_r_Inr_iff)
  from dict_comp_Inr [OF a] assms(2) obtain x where x: "a_par st ad = Some x" by auto
  from dict_comp_Inr [OF b] assms(2) obtain y where y: "b_par st ad = Some y" by auto
  have "count_list outs (1::int) \<le> length outs" by (rule count_le_length)
  with x y feed_total [OF x y, of outs] update_total [OF x y, of click] show ?thesis by simp
qed


text \<open>
  Five outcomes of \<open>crypto_magic\<close>, two of them clicks, from the initial parameters
  \<open>(9, 291)\<close> of the reference data: \<open>(11, 294)\<close>.
\<close>

theorem update_round_trip_witness:
  "\<exists>st'. initialization reference_env = Inr (a_par reference_start, b_par reference_start) \<and>
      feed reference_start ''crypto_magic'' [1, 0, 0, 1, 0] = Inr st' \<and>
      a_par st' ''crypto_magic'' = Some 11 \<and> b_par st' ''crypto_magic'' = Some 294 \<and>
      a_par st' ''green_energy'' = Some 3 \<and> b_par st' ''green_energy'' = Some 137"
proof -
  have init: "initialization reference_env = Inr (a_par reference_start, b_par reference_start)"
    by (simp add: initialization_def reference_env_def reference_start_def getitem_def)
  have mem: "''crypto_magic'' \<in> set (ads reference_env)"
    by (simp add: reference_env_def)
  from update_round_trip [OF init mem, of "[1, 0, 0, 1, 0]" 1]
  have "\<exists>st'. feed reference_start ''crypto_magic'' [1, 0, 0, 1, 0] = Inr st' \<and>
      a_par st' ''crypto_magic'' = Some 11 \<and> b_par st' ''crypto_magic'' = Some 294 \<and>
      a_par st' ''green_energy'' = Some 3 \<and> b_par st' ''green_energy'' = Some 137"
    by (auto simp: reference_start_def)
  with init show ?thesis by simp
qed

subsection \<open>The parameters during a run\<close>

lemma initialization_Inr:
  assumes "initialization E = Inr (a, b)" and "ad \<in> set (ads E)"
  shows "\<exists>c v. clicks E ad = Some c \<and> views E ad = Some v \<and> a ad = Some c \<and> b ad = Some (v - c)"
proof -
  from assms(1) have
    a: "dict_comp (getitem (clicks E)) (ads E) Map.empty = Inr a"
    and b: "dict_comp (\<lambda>ad. bind_r (getitem (views E) ad) (\<lambda>v.
                             bind_r (getitem (clicks E) ad) (\<lambda>c. Inr (v - c))))
               (ads E) Map.empty = Inr b"
    by (auto simp: initialization_def bind_r_Inr_iff)
  from dict_comp_Inr [OF a] assms(2) obtain c where c: "clicks E ad = Some c" "a ad = Some c"
    by (auto simp: getitem_Inr_iff)
  from dict_comp_Inr [OF b] assms(2) obtain w where
    w: "bind_r (getitem (views E) ad) (\<lambda>v. bind_r (getitem (clicks E) ad) (\<lambda>c. Inr (v - c))) = Inr w"
    "b ad = Some w" by auto
  from w(1) c(1) obtain v where "views E ad = Some v" "w = v - c"
    by (auto simp: bind_r_Inr_iff getitem_Inr_iff)
  with c w(2) show ?thesis by simp
qed

lemma TS_round_mono:
  assumes "TS_round S E ev bst t st = Inr st'" and "a_par st ad = Some x" and "b_par st ad = Some y"
  shows "\<exists>x' y'. a_par st' ad = Some x' \<and> b_par st' ad = Some y' \<and> x \<le> x' \<and> y \<le> y'"
proof -
  from TS_round_facts [OF assms(1)] obtain ad0 click where
    other: "\<forall>z. z \<noteq> ad0 \<longrightarrow> a_par st' z = a_par st z \<and> b_par st' z = b_par st z"
    and chosen: "if click = (1::int)
         then (\<exists>x. a_par st ad0 = Some x \<and> a_par st' ad0 = Some (x + 1)) \<and> b_par st' ad0 = b_par st ad0
         else (\<exists>y. b_par st ad0 = Some y \<and> b_par st' ad0 = Some (y + 1)) \<and> a_par st' ad0 = a_par st ad0"
    by blast
  show ?thesis
  proof (cases "ad = ad0")
    case True
    with chosen assms(2,3) show ?thesis by (auto split: if_splits)
  next
    case False
    with other assms(2,3) show ?thesis by simp
  qed
qed

lemma TS_loop_mono:
  "TS_loop S E ev bst ts st = Inr st' \<Longrightarrow> a_par st ad = Some x \<Longrightarrow> b_par st ad = Some y \<Longrightarrow>
   \<exists>x' y'. a_par st' ad = Some x' \<and> b_par st' ad = Some y' \<and> x \<le> x' \<and> y \<le> y'"
proof (induction ts arbitrary: st x y)
  case Nil
  then show ?case by simp
next
  case (Cons t ts)
  from Cons.prems(1) obtain st1 where 1: "TS_round S E ev bst t st = Inr st1"
    and 2: "TS_loop S E ev bst ts st1 = Inr st'" by (auto simp: bind_r_Inr_iff)
  from TS_round_mono [OF 1 Cons.prems(2,3)] obtain x1 y1 where
    s1: "a_par st1 ad = Some x1" "b_par st1 ad = Some y1" and le: "x \<le> x1" "y \<le> y1" by blast
  from Cons.IH [OF 2 s1] le show ?case by force
qed

text \<open>
  C5 (as the code has it). After any number \<open>k\<close> of rounds of a run, from any generator
  state (so in every replication), every arm of \<^verbatim>\<open>ads\<close> has \<open>a[ad] \<ge> clicks[ad]\<close> and
  \<open>b[ad] \<ge> views[ad] - clicks[ad]\<close>: the parameters start at the historical counts and
  are only incremented. They are strictly positive for an arm whose historical counts
  satisfy \<open>0 < clicks < views\<close>.
\<close>

theorem parameters_bounded_below:
  assumes "TS_after S E ev bst T k g = Inr st" and "ad \<in> set (ads E)"
  shows "\<exists>c v x y. clicks E ad = Some c \<and> views E ad = Some v \<and>
           a_par st ad = Some x \<and> b_par st ad = Some y \<and> c \<le> x \<and> v - c \<le> y \<and>
           (0 < c \<and> c < v \<longrightarrow> 0 < x \<and> 0 < y)"
proof -
  from assms(1) obtain a b where init: "initialization E = Inr (a, b)"
    and loop: "TS_loop S E ev bst [0..<k]
       \<lparr>reward = [], regret = [],
        ctr_prior = (\<lambda>t. if t < nat T then Some Map.empty else None),
        a_par = a, b_par = b, rng = g\<rparr> = Inr st"
    by (auto simp: TS_after_def bind_r_Inr_iff)
  from initialization_Inr [OF init assms(2)] obtain c v where
    cv: "clicks E ad = Some c" "views E ad = Some v" "a ad = Some c" "b ad = Some (v - c)"
    by blast
  from TS_loop_mono [OF loop, of ad c "v - c"] cv(3,4) obtain x y where
    "a_par st ad = Some x" "b_par st ad = Some y" "c \<le> x" "v - c \<le> y" by auto
  with cv(1,2) show ?thesis by auto
qed

text \<open>Two rounds on the reference data.\<close>

theorem parameters_bounded_below_witness:
  "\<exists>ev st x y. ev_true reference_env = Inr ev \<and>
      TS_after demo_sampler reference_env ev (Some ''infini_waves'') 2 2 0 = Inr st \<and>
      a_par st ''crypto_magic'' = Some x \<and> b_par st ''crypto_magic'' = Some y \<and>
      9 \<le> x \<and> 291 \<le> y \<and> 0 < x \<and> 0 < y"
proof -
  obtain ev where ev: "ev_true reference_env = Inr ev"
    "ev ''crypto_magic'' = Some (7 / 400)" "ev ''infini_waves'' = Some (11 / 500)"
    by (simp add: ev_true_def reference_env_def getitem_def)
  have "\<exists>st. TS_after demo_sampler reference_env ev (Some ''infini_waves'') 2 2 0 = Inr st"
    using ev(2,3)
    by (simp add: TS_after_def initialization_def TS_round_def select_action_def update_def
        np_random_beta_def np_random_binomial_def demo_sampler_def reference_env_def getitem_def
        upt_rec [of _ "numeral _"] upt_rec [of 0 "Suc _"])
  then obtain st where
    st: "TS_after demo_sampler reference_env ev (Some ''infini_waves'') 2 2 0 = Inr st" ..
  have "''crypto_magic'' \<in> set (ads reference_env)" by (simp add: reference_env_def)
  from parameters_bounded_below [OF st this] obtain x y where
    "a_par st ''crypto_magic'' = Some x" "b_par st ''crypto_magic'' = Some y"
    "9 \<le> x" "291 \<le> y" "0 < x" "0 < y"
    by (auto simp: reference_env_def)
  with ev(1) st show ?thesis by (intro exI [of _ ev] exI [of _ st] exI [of _ x] exI [of _ y] conjI)
qed

text \<open>
  An arm without a historical click starts at \<open>a = 0\<close>, which is not strictly positive,
  and the first Beta draw of the run raises ValueError.
\<close>

theorem parameters_positive_counterexample:
  "initial_parameters unclicked_env ''A'' = Inr (0, 10) \<and>
   simulations demo_sampler unclicked_env 1 1 0 = Inl ValueError"
  by (simp add: initial_parameters_def initialization_def unclicked_env_def one_arm_env_def
      getitem_def simulations_def ev_true_def best_def TS_def TS_round_def np_random_beta_def)

subsection \<open>A single arm, a single round\<close>




subsection \<open>Horizon and replication count\<close>

text \<open>
  C7 (as the code has it). Neither \<^verbatim>\<open>T\<close> nor \<^verbatim>\<open>R\<close> is validated. With \<open>T \<le> 0\<close> a run does
  no round and no draw: it returns empty reward and regret lists, an empty \<^verbatim>\<open>ctr_prior\<close>
  and the initial parameters. With \<open>R \<le> 0\<close> the simulation cell runs no replication and
  leaves the result tables empty. The only errors are those of the data cells and of
  \<^verbatim>\<open>initialization()\<close> (a missing key).
\<close>

theorem nonpositive_horizon_runs_nothing:
  "(T \<le> 0 \<longrightarrow> TS S E ev bst T g =
      bind_r (initialization E) (\<lambda>(a, b).
        Inr \<lparr>reward = [], regret = [], ctr_prior = Map.empty, a_par = a, b_par = b, rng = g\<rparr>)) \<and>
   (R \<le> 0 \<longrightarrow> simulations S E T R g =
      bind_r (ev_true E) (\<lambda>ev. bind_r (best E ev) (\<lambda>bst. Inr [])))"
  by (simp add: TS_def simulations_def)

text \<open>
  On the reference data: a run with \<open>T = -3\<close> returns the initial parameters and the
  generator state it was given; the simulations with \<open>R = 0\<close> return no run.
\<close>

theorem nonpositive_horizon_runs_nothing_witness:
  "\<exists>a b. TS demo_sampler reference_env Map.empty None (- 3) 5
           = Inr \<lparr>reward = [], regret = [], ctr_prior = Map.empty, a_par = a, b_par = b, rng = 5\<rparr> \<and>
         a ''crypto_magic'' = Some 9 \<and> b ''crypto_magic'' = Some 291 \<and>
         simulations demo_sampler reference_env 10000 0 5 = Inr []"
  using nonpositive_horizon_runs_nothing [of "- 3" demo_sampler reference_env Map.empty None 5 0]
    nonpositive_horizon_runs_nothing [of 10000 demo_sampler reference_env Map.empty None 5 0]
  by (simp add: initialization_def ev_true_def best_def reference_env_def getitem_def)

text \<open>No error for \<open>T = 0\<close> (three replications without a round) nor for \<open>R = -1\<close>.\<close>

theorem invalid_horizon_counterexample:
  "map_sum id (map reward) (simulations demo_sampler reference_env 0 3 0) = Inr [[], [], []] \<and>
   simulations demo_sampler reference_env 10000 (- 1) 0 = Inr []"
  by (simp add: simulations_def ev_true_def best_def TS_def initialization_def
      reference_env_def getitem_def upt_rec [of _ "numeral _"] upt_rec [of 0 "Suc _"])

subsection \<open>Averages over the replications\<close>

lemma list_comp_char:
  assumes "\<And>x e. f x = Inl e \<Longrightarrow> e = e0"
  shows "list_comp f xs = (if \<exists>x\<in>set xs. isl (f x) then Inl e0 else Inr (map (\<lambda>x. projr (f x)) xs))"
proof (induction xs)
  case Nil
  then show ?case by simp
next
  case (Cons x xs)
  show ?case
  proof (cases "f x")
    case (Inl e)
    with assms have "e = e0" by blast
    with Inl show ?thesis by simp
  next
    case (Inr y)
    with Cons.IH show ?thesis by simp
  qed
qed

lemma bind_r_cong_perm:
  assumes err: "\<And>x e. f x = Inl e \<Longrightarrow> e = e0" and perm: "mset xs = mset ys"
      and cont: "\<And>u w. mset u = mset w \<Longrightarrow> k u = k' w"
  shows "bind_r (list_comp f xs) k = bind_r (list_comp f ys) k'"
proof -
  from perm have s: "set xs = set ys" by (rule mset_eq_setD)
  have cx: "list_comp f xs = (if \<exists>x\<in>set xs. isl (f x) then Inl e0 else Inr (map (\<lambda>x. projr (f x)) xs))"
    using err by (rule list_comp_char)
  have cy: "list_comp f ys = (if \<exists>x\<in>set ys. isl (f x) then Inl e0 else Inr (map (\<lambda>x. projr (f x)) ys))"
    using err by (rule list_comp_char)
  show ?thesis
  proof (cases "\<exists>x\<in>set xs. isl (f x)")
    case True
    with s cx cy show ?thesis by simp
  next
    case False
    from perm have "mset (map (\<lambda>x. projr (f x)) xs) = mset (map (\<lambda>x. projr (f x)) ys)" by simp
    from cont [OF this] False s cx cy show ?thesis by simp
  qed
qed

lemma np_mean_mset: "mset u = mset w \<Longrightarrow> np_mean u = np_mean w"
proof -
  assume eq: "mset u = mset w"
  then have "sum_list u = sum_list w" by (metis sum_mset_sum_list)
  moreover from eq have "length u = length w" by (rule mset_eq_length)
  moreover from eq have "u = [] \<longleftrightarrow> w = []" by (metis mset_zero_iff)
  ultimately show ?thesis by (simp add: np_mean_def)
qed

lemma np_mean_map_mset: "mset u = mset w \<Longrightarrow> np_mean (map c u) = np_mean (map c w)"
  by (rule np_mean_mset) simp

lemma list_index_error: "list_index xs i = Inl e \<Longrightarrow> e = IndexError"
  by (simp add: list_index_def split: if_splits)

lemma getitem_error: "getitem d k = Inl e \<Longrightarrow> e = KeyError"
  by (simp add: getitem_Inl_iff)

lemma getitem2_error: "bind_r (getitem d k) (\<lambda>row. getitem row k') = Inl e \<Longrightarrow> e = KeyError"
  by (auto simp: bind_r_Inl_iff getitem_Inl_iff)

lemma ctr_avg_loop_perm:
  assumes "mset reps' = mset reps"
  shows "ctr_avg_loop reps' t as acp = ctr_avg_loop reps t as acp"
proof (induction as arbitrary: acp)
  case Nil
  show ?case by (simp only: ctr_avg_loop.simps)
next
  case (Cons ad as)
  show ?case
    unfolding ctr_avg_loop.simps
  proof (rule bind_r_cong_perm [OF getitem2_error assms])
    fix u w :: "real list"
    assume "mset u = mset w"
    then have "np_mean u = np_mean w" by (rule np_mean_mset)
    then show "bind_r (getitem acp ad) (\<lambda>l. ctr_avg_loop reps' t as (acp(ad \<mapsto> l @ [np_mean u])))
             = bind_r (getitem acp ad) (\<lambda>l. ctr_avg_loop reps t as (acp(ad \<mapsto> l @ [np_mean w])))"
      by (simp only: Cons.IH)
  qed
qed

lemma round_avg_loop_perm:
  assumes "mset reps' = mset reps"
  shows "round_avg_loop reps' as ts acc = round_avg_loop reps as ts acc"
proof (induction ts arbitrary: acc)
  case Nil
  show ?case by (simp only: round_avg_loop.simps)
next
  case (Cons t ts)
  obtain ar ag acp where acc: "acc = (ar, ag, acp)" by (cases acc)
  show ?case
    unfolding acc round_avg_loop.simps
  proof (rule bind_r_cong_perm [OF list_index_error assms])
    fix u w :: "real list"
    assume "mset u = mset w"
    then have uw: "np_mean u = np_mean w" by (rule np_mean_mset)
    show "bind_r (list_comp (\<lambda>tr. list_index (regret tr) t) reps')
            (\<lambda>ys. bind_r (ctr_avg_loop reps' t as acp)
               (\<lambda>acp'. round_avg_loop reps' as ts (ar @ [np_mean u], ag @ [np_mean ys], acp')))
        = bind_r (list_comp (\<lambda>tr. list_index (regret tr) t) reps)
            (\<lambda>ys. bind_r (ctr_avg_loop reps t as acp)
               (\<lambda>acp'. round_avg_loop reps as ts (ar @ [np_mean w], ag @ [np_mean ys], acp')))"
    proof (rule bind_r_cong_perm [OF list_index_error assms])
      fix u' w' :: "real list"
      assume "mset u' = mset w'"
      then have "np_mean u' = np_mean w'" by (rule np_mean_mset)
      with uw show "bind_r (ctr_avg_loop reps' t as acp)
               (\<lambda>acp'. round_avg_loop reps' as ts (ar @ [np_mean u], ag @ [np_mean u'], acp'))
          = bind_r (ctr_avg_loop reps t as acp)
               (\<lambda>acp'. round_avg_loop reps as ts (ar @ [np_mean w], ag @ [np_mean w'], acp'))"
        by (simp only: Cons.IH ctr_avg_loop_perm [OF assms])
    qed
  qed
qed

lemma final_avg_loop_perm:
  assumes "mset reps' = mset reps"
  shows "final_avg_loop reps' as acc = final_avg_loop reps as acc"
proof (induction as arbitrary: acc)
  case Nil
  show ?case by (simp only: final_avg_loop.simps)
next
  case (Cons ad as)
  obtain aa ab where acc: "acc = (aa, ab)" by (cases acc)
  show ?case
    unfolding acc final_avg_loop.simps
  proof (rule bind_r_cong_perm [OF getitem_error assms])
    fix u w :: "int list"
    assume "mset u = mset w"
    then have uw: "np_mean (map of_int u) = np_mean (map of_int w)" by (rule np_mean_map_mset)
    show "bind_r (list_comp (\<lambda>tr. getitem (b_par tr) ad) reps')
            (\<lambda>ys. final_avg_loop reps' as
               (aa(ad \<mapsto> np_mean (map of_int u)), ab(ad \<mapsto> np_mean (map of_int ys))))
        = bind_r (list_comp (\<lambda>tr. getitem (b_par tr) ad) reps)
            (\<lambda>ys. final_avg_loop reps as
               (aa(ad \<mapsto> np_mean (map of_int w)), ab(ad \<mapsto> np_mean (map of_int ys))))"
    proof (rule bind_r_cong_perm [OF getitem_error assms])
      fix u' w' :: "int list"
      assume "mset u' = mset w'"
      then have "np_mean (map of_int u') = np_mean (map of_int w')" by (rule np_mean_map_mset)
      with uw show "final_avg_loop reps' as
               (aa(ad \<mapsto> np_mean (map of_int u)), ab(ad \<mapsto> np_mean (map of_int u')))
          = final_avg_loop reps as
               (aa(ad \<mapsto> np_mean (map of_int w)), ab(ad \<mapsto> np_mean (map of_int w')))"
        by (simp only: Cons.IH)
    qed
  qed
qed

text \<open>
  C8. The averaging cell returns the same result (the same averages, or the same error)
  for the runs of the replications taken in any order: the result depends only on the
  multiset of the runs. Means are sums of reals divided by the count, so the equality is
  exact; in floating point it holds up to the order of summation.
\<close>

theorem averaging_order_insensitive:
  assumes "mset reps' = mset reps"
  shows "averaging E T reps' = averaging E T reps"
  unfolding averaging_def
  by (simp only: round_avg_loop_perm [OF assms] final_avg_loop_perm [OF assms])


text \<open>Two runs of one round each, averaged in both orders.\<close>

theorem averaging_order_insensitive_witness:
  "\<exists>av. averaging two_arm_env 1 [run_two, run_one] = Inr av \<and>
        averaging two_arm_env 1 [run_one, run_two] = Inr av \<and>
        avg_reward av = [Some (7 / 20)] \<and> avg_regret av = [Some (1 / 500)] \<and>
        avg_ctr_prior av ''B'' = Some [Some (1 / 25)] \<and>
        avg_a av ''A'' = Some (Some (7 / 2)) \<and> avg_b av ''B'' = Some (Some (191 / 2))"
proof -
  have "mset [run_two, run_one] = mset [run_one, run_two]" by simp
  then have swap: "averaging two_arm_env 1 [run_two, run_one]
                 = averaging two_arm_env 1 [run_one, run_two]"
    by (rule averaging_order_insensitive)
  have "\<exists>av. averaging two_arm_env 1 [run_one, run_two] = Inr av \<and>
        avg_reward av = [Some (7 / 20)] \<and> avg_regret av = [Some (1 / 500)] \<and>
        avg_ctr_prior av ''B'' = Some [Some (1 / 25)] \<and>
        avg_a av ''A'' = Some (Some (7 / 2)) \<and> avg_b av ''B'' = Some (Some (191 / 2))"
    by (simp add: averaging_def two_arm_env_def run_one_def run_two_def getitem_def
        list_index_def np_mean_def)
  with swap show ?thesis by simp
qed

end
